theory Spec2Isabelle
  imports Main
begin

section \<open>Python values and exceptions\<close>

text \<open>
  The module \<open>romanToIntegers.py\<close> is embedded as pure functions. A Python \<open>str\<close> is a
  \<^typ>\<open>string\<close>; the code only ever compares characters with the seven ASCII letters, so the
  width of a character plays no role. A one-character \<open>str\<close> (an element of
  \<open>list(reversed(value))\<close>, a dictionary key) is a \<^typ>\<open>string\<close> of length one, as in Python,
  which has no character type. Python's \<open>int\<close> is \<^typ>\<open>int\<close>. Every \<open>raise\<close> is the
  \<open>Inl\<close> branch of a sum, carrying the exception class and its argument. The recursion
  of \<open>RomanDigit.__int__\<close> is structural on the chain; the interpreter's recursion limit,
  a setting of the run and not of the module, is not part of the model.
\<close>

datatype error = ValueError string | KeyError string | TypeError string

definition quote :: char where
  "quote = CHR 0x27"

definition py_repr_str :: "string \<Rightarrow> string" where
  \<comment> \<open>\<open>repr\<close> of a \<open>str\<close> holding neither quotes nor characters to escape\<close>
  "py_repr_str s = [quote] @ s @ [quote]"

fun py_join :: "string \<Rightarrow> string list \<Rightarrow> string" where
  "py_join sep [] = []"
| "py_join sep [x] = x"
| "py_join sep (x # y # ys) = x @ sep @ py_join sep (y # ys)"

definition py_repr_list :: "string list \<Rightarrow> string" where
  \<comment> \<open>\<open>repr\<close> of a list of such strings, which is what \<open>'{}'.format(list)\<close> inserts\<close>
  "py_repr_list xs = ''['' @ py_join '', '' (map py_repr_str xs) @ '']''"

definition keys :: "('k \<times> 'v) list \<Rightarrow> 'k list" where
  \<comment> \<open>\<open>dict.keys()\<close>, in insertion order\<close>
  "keys d = map fst d"

section \<open>The digit chain\<close>

text \<open>
  The seven subclasses of \<open>RomanDigit\<close>; each derives from \<open>RomanDigit\<close> directly, so
  \<open>isinstance(x, (A, B))\<close> holds exactly when the class of \<open>x\<close> is \<open>A\<close> or \<open>B\<close>.
\<close>

datatype digit_class =
    RomanDigitOne | RomanDigitFive | RomanDigitTen | RomanDigitFifty
  | RomanDigitHundred | RomanDigitFiveHundred | RomanDigitThousand

text \<open>An instance: its class, \<open>_value\<close> and \<open>_next\<close> (\<open>None\<close> at the end of the chain).\<close>

datatype RomanDigit = Digit (cls: digit_class) (dvalue: string) (dnext: "RomanDigit option")

definition RomanDigit_map :: "(string \<times> int) list" where
  "RomanDigit_map =
     [(''I'', 1), (''V'', 5), (''X'', 10), (''L'', 50), (''C'', 100), (''D'', 500), (''M'', 1000)]"

definition RomanDigitFactory_map :: "(string \<times> digit_class) list" where
  "RomanDigitFactory_map =
     [(''I'', RomanDigitOne), (''V'', RomanDigitFive), (''X'', RomanDigitTen),
      (''L'', RomanDigitFifty), (''C'', RomanDigitHundred), (''D'', RomanDigitFiveHundred),
      (''M'', RomanDigitThousand)]"

definition allowed_digits_message :: string where
  "allowed_digits_message = ''Allowed roman digits are '' @ py_repr_list (keys RomanDigit_map)"

definition RomanDigit_init :: "digit_class \<Rightarrow> string \<Rightarrow> RomanDigit option \<Rightarrow> error + RomanDigit" where
  \<comment> \<open>the third check, that \<open>next_digit\<close> is \<open>None\<close> or a \<open>RomanDigit\<close>, holds by typing\<close>
  "RomanDigit_init c v next_digit =
     (if length v > 1 then
        Inl (TypeError (''Roman digit expects one char as parameter, use '' @
                        ''RomanNumber for longer strings''))
      else if v \<notin> set (keys RomanDigit_map) then Inl (KeyError allowed_digits_message)
      else Inr (Digit c v next_digit))"

definition get_digit :: "string \<Rightarrow> RomanDigit option \<Rightarrow> error + RomanDigit" where
  "get_digit v next_digit =
     (case map_of RomanDigitFactory_map v of
        None \<Rightarrow> Inl (KeyError allowed_digits_message)
      | Some c \<Rightarrow> RomanDigit_init c v next_digit)"

definition isinstance :: "RomanDigit option \<Rightarrow> digit_class list \<Rightarrow> bool" where
  "isinstance obj class_tuple =
     (case obj of None \<Rightarrow> False | Some d \<Rightarrow> cls d \<in> set class_tuple)"

definition get_int_value :: "RomanDigit \<Rightarrow> digit_class list \<Rightarrow> error + int" where
  \<comment> \<open>\<open>class_tuple\<close> is a tuple by typing; a missing key of the dictionary raises \<open>KeyError\<close>\<close>
  "get_int_value self class_tuple =
     (case map_of RomanDigit_map (dvalue self) of
        None \<Rightarrow> Inl (KeyError (dvalue self))
      | Some base_value \<Rightarrow>
          if isinstance (dnext self) class_tuple then Inr (-1 * base_value)
          else Inr base_value)"

definition self_int :: "RomanDigit \<Rightarrow> error + int" where
  \<comment> \<open>the method as each class defines or inherits it\<close>
  "self_int self =
     (case cls self of
        RomanDigitOne \<Rightarrow> get_int_value self [RomanDigitFive, RomanDigitTen]
      | RomanDigitTen \<Rightarrow> get_int_value self [RomanDigitFifty, RomanDigitHundred]
      | RomanDigitHundred \<Rightarrow> get_int_value self [RomanDigitFiveHundred, RomanDigitThousand]
      | _ \<Rightarrow> get_int_value self [])"

fun RomanDigit_int :: "RomanDigit \<Rightarrow> error + int" where
  "RomanDigit_int (Digit c v None) =
     (case self_int (Digit c v None) of
        Inl e \<Rightarrow> Inl e
      | Inr s \<Rightarrow> Inr (s + 0))"
| "RomanDigit_int (Digit c v (Some d)) =
     (case RomanDigit_int d of
        Inl e \<Rightarrow> Inl e
      | Inr next_value \<Rightarrow>
          (case self_int (Digit c v (Some d)) of
             Inl e \<Rightarrow> Inl e
           | Inr s \<Rightarrow> Inr (s + next_value)))"

section \<open>Regular expressions of the validator\<close>

text \<open>
  The two patterns are alternations of atoms \<open>[cs]{n}\<close>: a character of the class \<open>cs\<close>,
  exactly \<open>n\<close> times. \<open>re_search\<close> is \<open>pattern.search(value) is not None\<close>: some alternative
  matches at some position of the string.
\<close>

datatype re_atom = CharClassRep string nat

fun match_at :: "re_atom \<Rightarrow> string \<Rightarrow> bool" where
  "match_at (CharClassRep cs n) s = (n \<le> length s \<and> list_all (\<lambda>c. c \<in> set cs) (take n s))"

fun re_search :: "re_atom list \<Rightarrow> string \<Rightarrow> bool" where
  "re_search alts [] = list_ex (\<lambda>a. match_at a []) alts"
| "re_search alts (c # s) = (list_ex (\<lambda>a. match_at a (c # s)) alts \<or> re_search alts s)"

section \<open>The class RomanNumber\<close>

record RomanNumber =
  r_digits :: "RomanDigit option"
  r_value :: string

datatype pyval = PyInt int | PyRoman RomanNumber | PyOther

fun build_loop :: "string list \<Rightarrow> RomanDigit option \<Rightarrow> error + RomanDigit option" where
  \<comment> \<open>the \<open>while\<close> loop of \<open>_build_digits\<close>: \<open>letters.pop(0)\<close> until the list is empty\<close>
  "build_loop [] digits = Inr digits"
| "build_loop (l # letters) digits =
     (case get_digit l digits of
        Inl e \<Rightarrow> Inl e
      | Inr d \<Rightarrow> build_loop letters (Some d))"

definition build_digits :: "string \<Rightarrow> error + RomanDigit option" where
  "build_digits v = build_loop (map (\<lambda>c. [c]) (rev v)) None"

definition is_valid :: "string \<Rightarrow> bool" where
  \<comment> \<open>the compiled pattern \<open>[I]{4}|[V]{4}|[X]{4}|[L]{4}|[C]{4}|[D]{4}\<close>, an atom per digit\<close>
  "is_valid v =
     (let limited_digits = filter (\<lambda>digit. digit \<noteq> ''M'') (keys RomanDigitFactory_map);
          pattern = map (\<lambda>digit. CharClassRep digit 4) limited_digits
      in if \<not> re_search pattern v then True else False)"

definition is_in_range :: "string \<Rightarrow> bool" where
  \<comment> \<open>the compiled pattern \<open>[M]{4}\<close>\<close>
  "is_in_range v = (if \<not> re_search [CharClassRep ''M'' 4] v then True else False)"

definition repeated_digit_message :: string where
  "repeated_digit_message =
     ''Roman digits other than '' @ [quote] @ ''M'' @ [quote] @ '' cannot be used '' @
     ''continuously more than three times''"

definition out_of_range_message :: string where
  "out_of_range_message =
     ''RomanNumber class cannot handle numbers greater '' @ ''than 3999''"

definition RomanNumber_init :: "string \<Rightarrow> error + RomanNumber" where
  "RomanNumber_init v =
     (if \<not> is_valid v then Inl (ValueError repeated_digit_message)
      else if \<not> is_in_range v then Inl (ValueError out_of_range_message)
      else (case build_digits v of
              Inl e \<Rightarrow> Inl e
            | Inr d \<Rightarrow> Inr \<lparr>r_digits = d, r_value = v\<rparr>))"

definition int_of_None_message :: string where
  \<comment> \<open>the interpreter's message for \<open>int(None)\<close>\<close>
  "int_of_None_message =
     ''int() argument must be a string, a bytes-like object or a real number, not '' @
     [quote] @ ''NoneType'' @ [quote]"

definition RomanNumber_int :: "RomanNumber \<Rightarrow> error + int" where
  \<comment> \<open>\<open>int(self._digits)\<close>: the builtin raises \<open>TypeError\<close> on \<open>None\<close>\<close>
  "RomanNumber_int self =
     (case r_digits self of
        None \<Rightarrow> Inl (TypeError int_of_None_message)
      | Some d \<Rightarrow> RomanDigit_int d)"

definition RomanNumber_add :: "RomanNumber \<Rightarrow> pyval \<Rightarrow> error + pyval" where
  "RomanNumber_add self other =
     (case other of
        PyInt n \<Rightarrow>
          (case RomanNumber_int self of Inl e \<Rightarrow> Inl e | Inr a \<Rightarrow> Inr (PyInt (a + n)))
      | PyOther \<Rightarrow> Inl (TypeError ''RomanNumber does not allow sum with other objects'')
      | PyRoman r \<Rightarrow>
          (case RomanNumber_int self of
             Inl e \<Rightarrow> Inl e
           | Inr a \<Rightarrow>
               (case RomanNumber_int r of Inl e \<Rightarrow> Inl e | Inr b \<Rightarrow> Inr (PyInt (a + b)))))"

definition RomanNumber_iadd :: "RomanNumber \<Rightarrow> pyval \<Rightarrow> error + pyval" where
  "RomanNumber_iadd self other = RomanNumber_add self other"

definition RomanNumber_radd :: "RomanNumber \<Rightarrow> pyval \<Rightarrow> error + pyval" where
  "RomanNumber_radd self other = RomanNumber_add self other"

definition RomanNumber_repr :: "RomanNumber \<Rightarrow> string" where
  "RomanNumber_repr self = ''RomanNumber('' @ [quote] @ r_value self @ [quote] @ '')''"

text \<open>
  The statement \<open>r += other\<close>, with the name \<open>r\<close> bound to the object \<open>self\<close>: Python
  calls \<open>self.__iadd__(other)\<close> and binds \<open>r\<close> to what it returns. The result is that
  new binding together with the object \<open>self\<close> as the call leaves it; no method assigns
  to an attribute once \<open>__init__\<close> has returned.
\<close>

definition augmented_add :: "RomanNumber \<Rightarrow> pyval \<Rightarrow> error + pyval \<times> RomanNumber" where
  "augmented_add self other =
     (case RomanNumber_iadd self other of Inl e \<Rightarrow> Inl e | Inr v \<Rightarrow> Inr (v, self))"

text \<open>The expression \<open>int(RomanNumber(s))\<close> of the module's doctests.\<close>

definition int_RomanNumber :: "string \<Rightarrow> error + int" where
  "int_RomanNumber s =
     (case RomanNumber_init s of Inl e \<Rightarrow> Inl e | Inr a \<Rightarrow> RomanNumber_int a)"

text \<open>
  What \<open>self_int()\<close> returns at each node of a chain, from its entry point on, and the
  same for the chain that \<open>_build_digits\<close> makes of a string.
\<close>

fun self_ints :: "RomanDigit \<Rightarrow> (error + int) list" where
  "self_ints (Digit c v None) = [self_int (Digit c v None)]"
| "self_ints (Digit c v (Some d)) = self_int (Digit c v (Some d)) # self_ints d"

definition contributions :: "string \<Rightarrow> (error + int) list" where
  "contributions s =
     (case build_digits s of
        Inl e \<Rightarrow> []
      | Inr None \<Rightarrow> []
      | Inr (Some d) \<Rightarrow> self_ints d)"

section \<open>The specification's reading of the numeral\<close>

text \<open>
  The seven letters, their magnitudes and the larger partners of the three
  subtractive-capable letters, as the specification lists them; a letter's contribution
  at a position of the string, decided by the letter that follows; and their sum.
\<close>

definition roman_letters :: string where
  "roman_letters = ''IVXLCDM''"

definition magnitude :: "char \<Rightarrow> int" where
  "magnitude c =
     (if c = CHR ''I'' then 1 else if c = CHR ''V'' then 5 else if c = CHR ''X'' then 10
      else if c = CHR ''L'' then 50 else if c = CHR ''C'' then 100
      else if c = CHR ''D'' then 500 else if c = CHR ''M'' then 1000 else 0)"

definition larger_partners :: "char \<Rightarrow> string" where
  "larger_partners c =
     (if c = CHR ''I'' then ''VX'' else if c = CHR ''X'' then ''LC''
      else if c = CHR ''C'' then ''DM'' else [])"

definition contribution :: "string \<Rightarrow> nat \<Rightarrow> int" where
  "contribution s i =
     (if Suc i < length s \<and> s ! Suc i \<in> set (larger_partners (s ! i))
      then - magnitude (s ! i) else magnitude (s ! i))"

definition letter_sum :: "string \<Rightarrow> int" where
  "letter_sum s = sum_list (map (contribution s) [0..<length s])"

text \<open>
  \<open>consecutive_run c n s\<close>: the string \<open>s\<close> holds \<open>n\<close> or more consecutive occurrences of
  the character \<open>c\<close> (\<open>m\<close> of them from position \<open>i\<close> on, for some \<open>m \<ge> n\<close>).
\<close>

definition consecutive_run :: "char \<Rightarrow> nat \<Rightarrow> string \<Rightarrow> bool" where
  "consecutive_run c n s =
     (\<exists>i \<in> {..length s}. \<exists>m \<in> {n..length s}. take m (drop i s) = replicate m c)"

section \<open>Auxiliary functions of the proofs\<close>

text \<open>
  The class the factory gives a letter, the chain built for a string of letters, and the
  sum of a string's contributions computed front to back with one letter of lookahead.
\<close>

definition class_of :: "char \<Rightarrow> digit_class" where
  "class_of c =
     (if c = CHR ''I'' then RomanDigitOne else if c = CHR ''V'' then RomanDigitFive
      else if c = CHR ''X'' then RomanDigitTen else if c = CHR ''L'' then RomanDigitFifty
      else if c = CHR ''C'' then RomanDigitHundred
      else if c = CHR ''D'' then RomanDigitFiveHundred else RomanDigitThousand)"

fun chain_of :: "string \<Rightarrow> RomanDigit option" where
  "chain_of [] = None"
| "chain_of (c # s) = Some (Digit (class_of c) [c] (chain_of s))"

fun lookahead_sum :: "string \<Rightarrow> int" where
  "lookahead_sum [] = 0"
| "lookahead_sum [c] = magnitude c"
| "lookahead_sum (c # d # s) =
     (if d \<in> set (larger_partners c) then - magnitude c else magnitude c) + lookahead_sum (d # s)"

section \<open>The chain built for a string of letters\<close>

lemma roman_letter_cases:
  assumes "c \<in> set roman_letters"
  obtains "c = CHR ''I''" | "c = CHR ''V''" | "c = CHR ''X''" | "c = CHR ''L''"
    | "c = CHR ''C''" | "c = CHR ''D''" | "c = CHR ''M''"
  using assms by (auto simp: roman_letters_def)

lemma get_digit_letter:
  assumes "c \<in> set roman_letters"
  shows "get_digit [c] nxt = Inr (Digit (class_of c) [c] nxt)"
  using assms
  by (cases rule: roman_letter_cases)
     (simp_all add: get_digit_def RomanDigitFactory_map_def RomanDigit_init_def
        RomanDigit_map_def keys_def class_of_def)

lemma get_digit_unknown:
  assumes "c \<notin> set roman_letters"
  shows "get_digit [c] nxt = Inl (KeyError allowed_digits_message)"
  using assms
  by (simp add: get_digit_def RomanDigitFactory_map_def roman_letters_def)

lemma build_loop_append:
  "build_loop (xs @ ys) acc =
     (case build_loop xs acc of Inl e \<Rightarrow> Inl e | Inr d \<Rightarrow> build_loop ys d)"
  by (induction xs arbitrary: acc) (auto split: sum.splits)

lemma build_digits_letters:
  assumes "set s \<subseteq> set roman_letters"
  shows "build_digits s = Inr (chain_of s)"
  using assms unfolding build_digits_def
  by (induction s) (simp_all add: build_loop_append get_digit_letter)

lemma build_loop_unknown:
  assumes "\<exists>c \<in> set cs. c \<notin> set roman_letters"
  shows "build_loop (map (\<lambda>c. [c]) cs) acc = Inl (KeyError allowed_digits_message)"
  using assms
proof (induction cs arbitrary: acc)
  case Nil
  then show ?case by simp
next
  case (Cons c cs)
  show ?case
  proof (cases "c \<in> set roman_letters")
    case True
    with Cons.prems have "\<exists>c \<in> set cs. c \<notin> set roman_letters" by auto
    then show ?thesis using True by (simp add: get_digit_letter Cons.IH)
  next
    case False
    then show ?thesis by (simp add: get_digit_unknown)
  qed
qed

lemma build_digits_unknown:
  assumes "\<not> set s \<subseteq> set roman_letters"
  shows "build_digits s = Inl (KeyError allowed_digits_message)"
proof -
  from assms have "\<exists>c \<in> set (rev s). c \<notin> set roman_letters" by auto
  then show ?thesis unfolding build_digits_def by (rule build_loop_unknown)
qed

lemma self_int_last:
  assumes "c \<in> set roman_letters"
  shows "self_int (Digit (class_of c) [c] None) = Inr (magnitude c)"
  using assms
  by (cases rule: roman_letter_cases)
     (simp_all add: self_int_def get_int_value_def RomanDigit_map_def isinstance_def
        class_of_def magnitude_def)

lemma class_of_letters:
  "class_of (CHR ''I'') = RomanDigitOne" "class_of (CHR ''V'') = RomanDigitFive"
  "class_of (CHR ''X'') = RomanDigitTen" "class_of (CHR ''L'') = RomanDigitFifty"
  "class_of (CHR ''C'') = RomanDigitHundred" "class_of (CHR ''D'') = RomanDigitFiveHundred"
  "class_of (CHR ''M'') = RomanDigitThousand"
  by (simp_all add: class_of_def)

lemma isinstance_next:
  assumes "d \<in> set roman_letters"
  shows "isinstance (Some (Digit (class_of d) [d] nxt)) [RomanDigitFive, RomanDigitTen]
           \<longleftrightarrow> d \<in> set ''VX''"
    and "isinstance (Some (Digit (class_of d) [d] nxt)) [RomanDigitFifty, RomanDigitHundred]
           \<longleftrightarrow> d \<in> set ''LC''"
    and "isinstance (Some (Digit (class_of d) [d] nxt)) [RomanDigitFiveHundred, RomanDigitThousand]
           \<longleftrightarrow> d \<in> set ''DM''"
    and "\<not> isinstance (Some (Digit (class_of d) [d] nxt)) []"
  using assms
  by (cases rule: roman_letter_cases; simp add: isinstance_def class_of_letters)+

lemma self_int_inner:
  assumes "c \<in> set roman_letters" and "d \<in> set roman_letters"
  shows "self_int (Digit (class_of c) [c] (Some (Digit (class_of d) [d] nxt))) =
         Inr (if d \<in> set (larger_partners c) then - magnitude c else magnitude c)"
  using assms(1)
  by (cases rule: roman_letter_cases)
     (simp_all add: self_int_def get_int_value_def RomanDigit_map_def
        isinstance_next [OF assms(2)] class_of_letters magnitude_def larger_partners_def)

lemma RomanDigit_int_chain:
  assumes "c \<in> set roman_letters" and "set s \<subseteq> set roman_letters"
  shows "RomanDigit_int (Digit (class_of c) [c] (chain_of s)) = Inr (lookahead_sum (c # s))"
  using assms
proof (induction s arbitrary: c)
  case Nil
  then show ?case by (simp add: self_int_last)
next
  case (Cons d s)
  then have d: "d \<in> set roman_letters" and s: "set s \<subseteq> set roman_letters" by auto
  have "RomanDigit_int (Digit (class_of d) [d] (chain_of s)) = Inr (lookahead_sum (d # s))"
    using Cons.IH [OF d s] .
  then show ?case using Cons.prems(1) d by (simp add: self_int_inner)
qed

lemma contribution_Cons_Suc: "contribution (c # s) (Suc i) = contribution s i"
  by (simp add: contribution_def)

lemma letter_sum_Cons:
  "letter_sum (c # s) = contribution (c # s) 0 + letter_sum s"
proof -
  have "[0..<length (c # s)] = 0 # map Suc [0..<length s]"
    by (simp add: upt_conv_Cons map_Suc_upt del: upt_Suc)
  then show ?thesis
    by (simp add: letter_sum_def comp_def contribution_Cons_Suc del: upt_Suc)
qed

lemma lookahead_sum_letter_sum: "lookahead_sum s = letter_sum s"
proof (induction s rule: lookahead_sum.induct)
  case 1
  then show ?case by (simp add: letter_sum_def)
next
  case (2 c)
  then show ?case by (simp add: letter_sum_def contribution_def)
next
  case (3 c d s)
  then show ?case by (simp add: letter_sum_Cons [of c] contribution_def)
qed

lemma lookahead_sum_lower:
  assumes "c \<in> set roman_letters" and "set s \<subseteq> set roman_letters"
  shows "magnitude c \<le> lookahead_sum (c # s)"
  using assms
proof (induction s arbitrary: c)
  case Nil
  then show ?case by simp
next
  case (Cons d s)
  then have d: "d \<in> set roman_letters" and s: "set s \<subseteq> set roman_letters" by auto
  have lower: "magnitude d \<le> lookahead_sum (d # s)" using Cons.IH [OF d s] .
  have pos: "0 \<le> magnitude d" by (simp add: magnitude_def)
  have flip: "d \<in> set (larger_partners c) \<Longrightarrow> 2 * magnitude c \<le> magnitude d"
    by (auto simp: larger_partners_def magnitude_def split: if_splits)
  show ?case using lower pos flip by auto
qed

section \<open>What the validator's patterns find\<close>

lemma re_search_iff:
  "re_search alts s \<longleftrightarrow> (\<exists>i \<le> length s. \<exists>a \<in> set alts. match_at a (drop i s))"
proof (induction s)
  case Nil
  then show ?case by (simp add: list_ex_iff)
next
  case (Cons c s)
  have split: "(\<exists>i \<le> Suc (length s). P i) \<longleftrightarrow> P 0 \<or> (\<exists>i \<le> length s. P (Suc i))" for P
  proof
    assume "\<exists>i \<le> Suc (length s). P i"
    then obtain i where i: "i \<le> Suc (length s)" "P i" by blast
    show "P 0 \<or> (\<exists>i \<le> length s. P (Suc i))"
    proof (cases i)
      case 0
      with i show ?thesis by simp
    next
      case (Suc j)
      with i show ?thesis by auto
    qed
  next
    assume "P 0 \<or> (\<exists>i \<le> length s. P (Suc i))"
    then show "\<exists>i \<le> Suc (length s). P i" by auto
  qed
  show ?case
    by (simp only: re_search.simps Cons.IH list_ex_iff length_Cons
          split [of "\<lambda>i. \<exists>a \<in> set alts. match_at a (drop i (c # s))"] drop_0 drop_Suc_Cons)
qed

lemma match_at_single:
  "match_at (CharClassRep [c] n) t \<longleftrightarrow> take n t = replicate n c"
proof
  assume m: "match_at (CharClassRep [c] n) t"
  then have len: "length (take n t) = n" by simp
  from m have "\<forall>x \<in> set (take n t). x = c" by (simp add: list_all_iff)
  then have "replicate (length (take n t)) c = take n t" by (rule replicate_length_same)
  with len show "take n t = replicate n c" by simp
next
  assume e: "take n t = replicate n c"
  then have "length (take n t) = n" by simp
  then have len: "n \<le> length t" by simp
  have "set (replicate n c) \<subseteq> {c}" by auto
  with e have "set (take n t) \<subseteq> {c}" by simp
  with len show "match_at (CharClassRep [c] n) t" by (auto simp: list_all_iff)
qed

lemma consecutive_run_iff:
  "consecutive_run c n s \<longleftrightarrow> (\<exists>i \<le> length s. take n (drop i s) = replicate n c)"
proof
  assume "consecutive_run c n s"
  then obtain i m where i: "i \<le> length s" and m: "n \<le> m"
    and e: "take m (drop i s) = replicate m c"
    by (auto simp: consecutive_run_def)
  have "take n (drop i s) = take n (take m (drop i s))" using m by (simp add: min_def)
  also have "\<dots> = replicate n c" using m by (simp add: e min_def)
  finally show "\<exists>i \<le> length s. take n (drop i s) = replicate n c" using i by blast
next
  assume "\<exists>i \<le> length s. take n (drop i s) = replicate n c"
  then obtain i where i: "i \<le> length s" and e: "take n (drop i s) = replicate n c" by blast
  from e have "length (take n (drop i s)) = n" by simp
  then have n: "n \<le> length s" by simp
  show "consecutive_run c n s" unfolding consecutive_run_def
  proof (intro bexI)
    show "take n (drop i s) = replicate n c" by (rule e)
    show "n \<in> {n..length s}" using n by simp
    show "i \<in> {..length s}" using i by simp
  qed
qed

lemma re_search_single:
  "re_search [CharClassRep [c] n] s \<longleftrightarrow> consecutive_run c n s"
  by (simp add: re_search_iff consecutive_run_iff match_at_single del: match_at.simps)

lemma is_in_range_iff: "is_in_range s \<longleftrightarrow> \<not> consecutive_run (CHR ''M'') 4 s"
  by (simp add: is_in_range_def re_search_single del: re_search.simps)

lemma is_valid_iff:
  "is_valid s \<longleftrightarrow> \<not> (\<exists>c \<in> set ''IVXLCD''. consecutive_run c 4 s)"
  by (simp add: is_valid_def keys_def RomanDigitFactory_map_def re_search_iff
        consecutive_run_iff match_at_single del: match_at.simps) blast

lemma messages_differ: "repeated_digit_message \<noteq> out_of_range_message"
  by (simp add: repeated_digit_message_def out_of_range_message_def)

lemma build_digits_cases:
  "build_digits s = Inr (chain_of s) \<and> set s \<subseteq> set roman_letters \<or>
   build_digits s = Inl (KeyError allowed_digits_message) \<and> \<not> set s \<subseteq> set roman_letters"
  using build_digits_letters [of s] build_digits_unknown [of s] by blast

section \<open>Construction and evaluation\<close>

lemma RomanNumber_init_Inr:
  assumes "RomanNumber_init s = Inr a"
  shows "set s \<subseteq> set roman_letters" and "a = \<lparr>r_digits = chain_of s, r_value = s\<rparr>"
    and "is_valid s" and "is_in_range s"
proof -
  from assms have v: "is_valid s" and r: "is_in_range s"
    by (auto simp: RomanNumber_init_def split: if_splits)
  with assms have b: "(case build_digits s of Inl e \<Rightarrow> Inl e
      | Inr d \<Rightarrow> Inr \<lparr>r_digits = d, r_value = s\<rparr>) = Inr a"
    by (simp add: RomanNumber_init_def)
  from build_digits_cases [of s] b show l: "set s \<subseteq> set roman_letters" by auto
  from b l show "a = \<lparr>r_digits = chain_of s, r_value = s\<rparr>"
    by (simp add: build_digits_letters)
  show "is_valid s" by (rule v)
  show "is_in_range s" by (rule r)
qed

lemma RomanNumber_int_nonempty:
  assumes "RomanNumber_init s = Inr a" and "s \<noteq> []"
  shows "RomanNumber_int a = Inr (lookahead_sum s)"
proof -
  from assms(2) obtain c t where s: "s = c # t" by (cases s) auto
  from RomanNumber_init_Inr(1) [OF assms(1)] s
  have c: "c \<in> set roman_letters" and t: "set t \<subseteq> set roman_letters" by auto
  from RomanNumber_init_Inr(2) [OF assms(1)]
  have "RomanNumber_int a = RomanDigit_int (Digit (class_of c) [c] (chain_of t))"
    by (simp add: RomanNumber_int_def s)
  then show ?thesis by (simp add: RomanDigit_int_chain [OF c t] s)
qed

lemma lookahead_sum_positive:
  assumes "set s \<subseteq> set roman_letters" and "s \<noteq> []"
  shows "0 < lookahead_sum s"
proof -
  from assms(2) obtain c t where s: "s = c # t" by (cases s) auto
  with assms(1) have c: "c \<in> set roman_letters" and t: "set t \<subseteq> set roman_letters" by auto
  have "0 < magnitude c" using c by (cases rule: roman_letter_cases) (simp_all add: magnitude_def)
  with lookahead_sum_lower [OF c t] show ?thesis by (simp add: s)
qed

lemma self_ints_chain:
  assumes "c \<in> set roman_letters" and "set s \<subseteq> set roman_letters"
  shows "self_ints (Digit (class_of c) [c] (chain_of s)) =
         map (\<lambda>i. Inr (contribution (c # s) i)) [0..<Suc (length s)]"
  using assms
proof (induction s arbitrary: c)
  case Nil
  then show ?case by (simp add: self_int_last contribution_def)
next
  case (Cons d s)
  then have d: "d \<in> set roman_letters" and s: "set s \<subseteq> set roman_letters" by auto
  have up: "[0..<Suc (length (d # s))] = 0 # map Suc [0..<Suc (length s)]"
    by (simp add: upt_conv_Cons map_Suc_upt del: upt_Suc)
  have hd: "self_int (Digit (class_of c) [c] (Some (Digit (class_of d) [d] (chain_of s)))) =
      Inr (contribution (c # d # s) 0)"
    using Cons.prems(1) d by (simp add: self_int_inner contribution_def)
  show ?case
    by (simp only: chain_of.simps self_ints.simps hd Cons.IH [OF d s] up list.map map_map
          comp_def contribution_Cons_Suc)
qed

lemma contributions_letters:
  assumes "set s \<subseteq> set roman_letters"
  shows "contributions s = map (\<lambda>i. Inr (contribution s i)) [0..<length s]"
proof (cases s)
  case Nil
  then show ?thesis by (simp add: contributions_def build_digits_def)
next
  case (Cons c t)
  with assms have c: "c \<in> set roman_letters" and t: "set t \<subseteq> set roman_letters" by auto
  show ?thesis using self_ints_chain [OF c t] assms
    by (simp add: contributions_def build_digits_letters Cons del: upt_Suc)
qed

lemma flipped_then_larger:
  assumes "set s \<subseteq> set roman_letters" and "i < length s" and "contribution s i < 0"
  shows "Suc i < length s \<and> magnitude (s ! i) < magnitude (s ! Suc i) \<and>
         contribution s i = - magnitude (s ! i)"
proof -
  from assms(1,2) have "s ! i \<in> set roman_letters" by (auto simp: subset_iff)
  then have pos: "0 < magnitude (s ! i)"
    by (cases rule: roman_letter_cases) (simp_all add: magnitude_def)
  with assms(3) have n: "Suc i < length s" and p: "s ! Suc i \<in> set (larger_partners (s ! i))"
    by (auto simp: contribution_def split: if_splits)
  from p have "magnitude (s ! i) < magnitude (s ! Suc i)"
    by (auto simp: larger_partners_def magnitude_def split: if_splits)
  with n p show ?thesis by (simp add: contribution_def)
qed

lemma messages_differ2: "out_of_range_message \<noteq> repeated_digit_message"
  by (simp add: repeated_digit_message_def out_of_range_message_def)

text \<open>
  Addition on a numeral whose \<open>int\<close> returns: \<open>__add__\<close>, \<open>__radd__\<close> and \<open>__iadd__\<close> return
  the plain integer sum, and the numeral built from a non-empty accepted string is such a
  numeral.
\<close>

lemma add_returns_int_sum:
  assumes "RomanNumber_int a = Inr va"
  shows "RomanNumber_add a (PyInt n) = Inr (PyInt (va + n))"
    and "RomanNumber_int b = Inr vb \<Longrightarrow> RomanNumber_add a (PyRoman b) = Inr (PyInt (va + vb))"
  using assms by (simp_all add: RomanNumber_add_def)

lemma add_of_nonempty:
  assumes "RomanNumber_init s = Inr a" and "s \<noteq> []"
  shows "RomanNumber_add a (PyInt n) = Inr (PyInt (letter_sum s + n))"
    and "RomanNumber_init t = Inr b \<Longrightarrow> t \<noteq> [] \<Longrightarrow>
         RomanNumber_add a (PyRoman b) = Inr (PyInt (letter_sum s + letter_sum t))"
  using assms
  by (simp_all add: RomanNumber_add_def RomanNumber_int_nonempty lookahead_sum_letter_sum)

lemma doctest_sum:
  "RomanNumber_add \<lparr>r_digits = chain_of ''MMCCLXIII'', r_value = ''MMCCLXIII''\<rparr>
     (PyRoman \<lparr>r_digits = chain_of ''CCXLIV'', r_value = ''CCXLIV''\<rparr>) = Inr (PyInt 2507)"
  by code_simp

lemma radd_iadd_of_nonempty:
  assumes "RomanNumber_init s = Inr r" and "s \<noteq> []"
  shows "RomanNumber_radd r (PyInt n) = Inr (PyInt (letter_sum s + n))"
    and "RomanNumber_radd r (PyInt n) = RomanNumber_add r (PyInt n)"
    and "augmented_add r (PyInt n) = Inr (PyInt (letter_sum s + n), r)"
  using add_of_nonempty(1) [OF assms]
  by (simp_all add: RomanNumber_radd_def RomanNumber_iadd_def augmented_add_def)

section \<open>The claims\<close>

text \<open>
  Claim C1. For every non-empty string that construction accepts, \<open>int\<close> of the numeral
  returns the sum, over the positions of the string, of the letter's magnitude
  (I=1, V=5, X=10, L=50, C=100, D=500, M=1000), negated exactly when the letter is I, X
  or C and the letter that follows is one of its larger partners (V or X after I, L or C
  after X, D or M after C); V, L, D and M have no partners and always count positive.
\<close>

theorem ToInteger_is_letter_sum:
  assumes "RomanNumber_init s = Inr a" and "s \<noteq> []"
  shows "RomanNumber_int a = Inr (letter_sum s)"
  using RomanNumber_int_nonempty [OF assms] by (simp add: lookahead_sum_letter_sum)

theorem ToInteger_is_letter_sum_witness:
  "int_RomanNumber ''MCMXCIV'' = Inr (letter_sum ''MCMXCIV'') \<and> letter_sum ''MCMXCIV'' = 1994"
proof -
  have i: "RomanNumber_init ''MCMXCIV'' =
      Inr \<lparr>r_digits = chain_of ''MCMXCIV'', r_value = ''MCMXCIV''\<rparr>"
    by code_simp
  have n: "''MCMXCIV'' \<noteq> []" by simp
  have v: "letter_sum ''MCMXCIV'' = 1994" by code_simp
  from ToInteger_is_letter_sum [OF i n] v show ?thesis by (simp add: int_RomanNumber_def i)
qed

text \<open>
  Claim C2 says that no accepted string evaluates to 4000 or more. The range check only
  looks for four consecutive M; the string MMMDMMM has none, is accepted, and evaluates to
  6500.
\<close>

theorem range_ceiling_exceeded:
  "int_RomanNumber ''MMMDMMM'' = Inr 6500"
  by code_simp

text \<open>
  Claim C3 says that \<open>int\<close> never raises on a constructed numeral. The empty string is
  accepted, its chain is \<open>None\<close>, and \<open>int(None)\<close> raises \<open>TypeError\<close>.
\<close>

theorem empty_string_int_raises:
  "RomanNumber_init [] = Inr \<lparr>r_digits = None, r_value = []\<rparr> \<and>
   RomanNumber_int \<lparr>r_digits = None, r_value = []\<rparr> = Inl (TypeError int_of_None_message)"
  by code_simp

text \<open>
  Claim C4. Construction fails with the repeated-digit error (the first \<open>ValueError\<close> of
  \<open>__init__\<close>) if and only if the string holds four or more consecutive occurrences of
  one of the letters other than M, that is of I, V, X, L, C or D. A run of M alone never
  gives this error.
\<close>

theorem repeated_digit_error_iff:
  "RomanNumber_init s = Inl (ValueError repeated_digit_message) \<longleftrightarrow>
     (\<exists>c \<in> set roman_letters. c \<noteq> CHR ''M'' \<and> consecutive_run c 4 s)"
proof -
  have letters: "(\<exists>c \<in> set roman_letters. c \<noteq> CHR ''M'' \<and> consecutive_run c 4 s) \<longleftrightarrow>
      (\<exists>c \<in> set ''IVXLCD''. consecutive_run c 4 s)"
    by (simp add: roman_letters_def)
  show ?thesis
  proof (cases "is_valid s")
    case False
    then show ?thesis by (simp add: RomanNumber_init_def letters is_valid_iff)
  next
    case True
    have "RomanNumber_init s \<noteq> Inl (ValueError repeated_digit_message)"
      using True build_digits_cases [of s]
      by (auto simp: RomanNumber_init_def messages_differ2)
    with True show ?thesis by (simp add: letters is_valid_iff)
  qed
qed

theorem repeated_digit_error_iff_witness:
  "consecutive_run (CHR ''X'') 4 ''XXXX'' \<and>
   RomanNumber_init ''XXXX'' = Inl (ValueError repeated_digit_message) \<and>
   RomanNumber_init ''MMMM'' \<noteq> Inl (ValueError repeated_digit_message)"
proof -
  have r: "consecutive_run (CHR ''X'') 4 ''XXXX''"
    unfolding re_search_single [symmetric] by code_simp
  then have "\<exists>c \<in> set roman_letters. c \<noteq> CHR ''M'' \<and> consecutive_run c 4 ''XXXX''"
    by (auto simp: roman_letters_def)
  then have x: "RomanNumber_init ''XXXX'' = Inl (ValueError repeated_digit_message)"
    by (simp only: repeated_digit_error_iff [of "''XXXX''"])
  have m: "RomanNumber_init ''MMMM'' \<noteq> Inl (ValueError repeated_digit_message)"
    by code_simp
  from r x m show ?thesis by simp
qed

text \<open>
  Claim C5 as stated, that every string holding four or more consecutive M fails with the
  out-of-range error, is false: IIIIMMMM holds four M and fails with the repeated-digit
  error, since \<open>__init__\<close> checks \<open>_is_valid\<close> first.
\<close>

theorem range_error_counterexample:
  "consecutive_run (CHR ''M'') 4 ''IIIIMMMM'' \<and>
   RomanNumber_init ''IIIIMMMM'' = Inl (ValueError repeated_digit_message) \<and>
   RomanNumber_init ''IIIIMMMM'' \<noteq> Inl (ValueError out_of_range_message)"
proof -
  have "consecutive_run (CHR ''M'') 4 ''IIIIMMMM''"
    unfolding re_search_single [symmetric] by code_simp
  moreover have "RomanNumber_init ''IIIIMMMM'' = Inl (ValueError repeated_digit_message)"
    by code_simp
  ultimately show ?thesis by (simp add: messages_differ)
qed

text \<open>
  Claim C5, amended. Every string that holds four or more consecutive M and no four or
  more consecutive occurrences of another letter (I, V, X, L, C, D) fails with the
  out-of-range error.
\<close>

theorem range_error_without_other_run:
  assumes "consecutive_run (CHR ''M'') 4 s"
    and "\<not> (\<exists>c \<in> set roman_letters. c \<noteq> CHR ''M'' \<and> consecutive_run c 4 s)"
  shows "RomanNumber_init s = Inl (ValueError out_of_range_message)"
proof -
  from assms(2) have "is_valid s" by (simp add: is_valid_iff roman_letters_def)
  moreover from assms(1) have "\<not> is_in_range s" by (simp add: is_in_range_iff)
  ultimately show ?thesis by (simp add: RomanNumber_init_def)
qed

theorem range_error_without_other_run_witness:
  "consecutive_run (CHR ''M'') 4 ''MMMMCM'' \<and>
   RomanNumber_init ''MMMMCM'' = Inl (ValueError out_of_range_message)"
proof -
  have r: "consecutive_run (CHR ''M'') 4 ''MMMMCM''"
    unfolding re_search_single [symmetric] by code_simp
  have "is_valid ''MMMMCM''" by code_simp
  then have n: "\<not> (\<exists>c \<in> set roman_letters. c \<noteq> CHR ''M'' \<and> consecutive_run c 4 ''MMMMCM'')"
    by (simp add: is_valid_iff roman_letters_def)
  from range_error_without_other_run [OF r n] r show ?thesis by simp
qed

text \<open>
  Claim C6 as stated, that every string holding a character outside the seven letters
  fails with the unknown-digit error, is false: RMMMM fails with the out-of-range error,
  since both patterns are searched before the chain is built.
\<close>

theorem unknown_digit_counterexample:
  "CHR ''R'' \<in> set ''RMMMM'' \<and> CHR ''R'' \<notin> set roman_letters \<and>
   RomanNumber_init ''RMMMM'' = Inl (ValueError out_of_range_message) \<and>
   RomanNumber_init ''RMMMM'' \<noteq> Inl (KeyError allowed_digits_message)"
  by code_simp

text \<open>
  Claim C6, amended. Every string that holds a character outside the seven letters and
  no four or more consecutive occurrences of one of the seven letters fails with the
  unknown-digit error, a \<open>KeyError\<close> whose message lists the seven allowed digits.
\<close>

theorem unknown_digit_without_run:
  assumes "\<exists>c \<in> set s. c \<notin> set roman_letters"
    and "\<not> (\<exists>c \<in> set roman_letters. consecutive_run c 4 s)"
  shows "RomanNumber_init s = Inl (KeyError allowed_digits_message) \<and>
         allowed_digits_message =
           ''Allowed roman digits are ['' @ py_repr_str ''I'' @ '', '' @ py_repr_str ''V'' @
           '', '' @ py_repr_str ''X'' @ '', '' @ py_repr_str ''L'' @ '', '' @
           py_repr_str ''C'' @ '', '' @ py_repr_str ''D'' @ '', '' @ py_repr_str ''M'' @ '']''"
proof -
  from assms(2) have "is_valid s" and "is_in_range s"
    by (simp_all add: is_valid_iff is_in_range_iff roman_letters_def)
  moreover from assms(1) have "\<not> set s \<subseteq> set roman_letters" by auto
  then have "build_digits s = Inl (KeyError allowed_digits_message)"
    by (rule build_digits_unknown)
  ultimately have "RomanNumber_init s = Inl (KeyError allowed_digits_message)"
    by (simp add: RomanNumber_init_def)
  moreover have "allowed_digits_message =
           ''Allowed roman digits are ['' @ py_repr_str ''I'' @ '', '' @ py_repr_str ''V'' @
           '', '' @ py_repr_str ''X'' @ '', '' @ py_repr_str ''L'' @ '', '' @
           py_repr_str ''C'' @ '', '' @ py_repr_str ''D'' @ '', '' @ py_repr_str ''M'' @ '']''"
    by (simp add: allowed_digits_message_def py_repr_list_def keys_def RomanDigit_map_def)
  ultimately show ?thesis by simp
qed

theorem unknown_digit_without_run_witness:
  "CHR ''R'' \<in> set ''XRI'' \<and> CHR ''R'' \<notin> set roman_letters \<and>
   RomanNumber_init ''XRI'' = Inl (KeyError allowed_digits_message)"
proof -
  have m: "CHR ''R'' \<in> set ''XRI''" and u: "CHR ''R'' \<notin> set roman_letters"
    by (simp_all add: roman_letters_def)
  then have e: "\<exists>c \<in> set ''XRI''. c \<notin> set roman_letters" by blast
  have "is_valid ''XRI''" and "is_in_range ''XRI''" by code_simp+
  then have n: "\<not> (\<exists>c \<in> set roman_letters. consecutive_run c 4 ''XRI'')"
    by (simp add: is_valid_iff is_in_range_iff roman_letters_def)
  from unknown_digit_without_run [OF e n] m u show ?thesis by simp
qed

text \<open>
  Claim C7 says that \<open>__add__\<close> returns the plain integer sum for every constructed
  numeral. The numeral constructed from the empty string is one, and on it \<open>__add__\<close>
  raises the \<open>TypeError\<close> of \<open>int(None)\<close>, with an integer and with a numeral as operand.
\<close>

theorem add_on_empty_numeral_raises:
  "RomanNumber_init [] = Inr \<lparr>r_digits = None, r_value = []\<rparr> \<and>
   RomanNumber_add \<lparr>r_digits = None, r_value = []\<rparr> (PyInt 5) =
     Inl (TypeError int_of_None_message) \<and>
   RomanNumber_add \<lparr>r_digits = None, r_value = []\<rparr> (PyRoman \<lparr>r_digits = None, r_value = []\<rparr>) =
     Inl (TypeError int_of_None_message)"
  by code_simp

text \<open>
  Claim C8 as stated, that rendering the numeral constructed from \<open>s\<close> returns exactly
  \<open>s\<close>, is false of \<open>__repr__\<close>, the only rendering the class has: for IIV it returns
  \<open>RomanNumber('IIV')\<close>.
\<close>

theorem repr_is_not_input_counterexample:
  "RomanNumber_init ''IIV'' =
     Inr \<lparr>r_digits = Some (Digit RomanDigitOne ''I'' (Some (Digit RomanDigitOne ''I''
              (Some (Digit RomanDigitFive ''V'' None))))), r_value = ''IIV''\<rparr> \<and>
   RomanNumber_repr
     \<lparr>r_digits = Some (Digit RomanDigitOne ''I'' (Some (Digit RomanDigitOne ''I''
              (Some (Digit RomanDigitFive ''V'' None))))), r_value = ''IIV''\<rparr> =
     ''RomanNumber('' @ [quote] @ ''IIV'' @ [quote] @ '')'' \<and>
   ''RomanNumber('' @ [quote] @ ''IIV'' @ [quote] @ '')'' \<noteq> ''IIV''"
  by code_simp

text \<open>
  Claim C8, amended. For every string \<open>s\<close> that construction accepts, the numeral stores
  \<open>s\<close> itself, and \<open>__repr__\<close> returns \<open>s\<close> verbatim between \<open>RomanNumber('\<close> and \<open>')\<close>;
  nothing is made canonical.
\<close>

theorem repr_wraps_input_verbatim:
  assumes "RomanNumber_init s = Inr a"
  shows "r_value a = s \<and> RomanNumber_repr a = ''RomanNumber('' @ [quote] @ s @ [quote] @ '')''"
  using RomanNumber_init_Inr(2) [OF assms] by (simp add: RomanNumber_repr_def)

theorem repr_wraps_input_verbatim_witness:
  "RomanNumber_init ''IIIX'' = Inr \<lparr>r_digits = chain_of ''IIIX'', r_value = ''IIIX''\<rparr> \<and>
   RomanNumber_repr \<lparr>r_digits = chain_of ''IIIX'', r_value = ''IIIX''\<rparr> =
     ''RomanNumber('' @ [quote] @ ''IIIX'' @ [quote] @ '')''"
proof -
  have i: "RomanNumber_init ''IIIX'' =
      Inr \<lparr>r_digits = chain_of ''IIIX'', r_value = ''IIIX''\<rparr>"
    by code_simp
  from repr_wraps_input_verbatim [OF i] i show ?thesis by simp
qed

text \<open>
  Claim C9 as stated gives as the reason that every sign-flipped contribution is
  immediately followed by a strictly larger positive contribution. In IXC the flipped
  contribution of I is followed by the contribution of X, which is flipped itself.
\<close>

theorem flipped_before_flipped_counterexample:
  "RomanNumber_init ''IXC'' =
     Inr \<lparr>r_digits = Some (Digit RomanDigitOne ''I'' (Some (Digit RomanDigitTen ''X''
              (Some (Digit RomanDigitHundred ''C'' None))))), r_value = ''IXC''\<rparr> \<and>
   contributions ''IXC'' = [Inr (- 1), Inr (- 10), Inr 100] \<and>
   int_RomanNumber ''IXC'' = Inr 89"
  by code_simp

text \<open>
  Claim C9, amended. For every non-empty string that construction accepts, \<open>int\<close> of the
  numeral returns a non-negative integer, and every sign-flipped contribution is the
  negated magnitude of a letter that is immediately followed by a letter of strictly
  larger magnitude (whose own contribution may be flipped in turn).
\<close>

theorem ToInteger_nonnegative:
  assumes "RomanNumber_init s = Inr a" and "s \<noteq> []"
  shows "\<exists>v. RomanNumber_int a = Inr v \<and> 0 \<le> v \<and>
           length (contributions s) = length s \<and>
           (\<forall>i < length s. \<forall>x. contributions s ! i = Inr x \<and> x < 0 \<longrightarrow>
              x = - magnitude (s ! i) \<and> Suc i < length s \<and>
              magnitude (s ! i) < magnitude (s ! Suc i))"
proof -
  have l: "set s \<subseteq> set roman_letters" by (rule RomanNumber_init_Inr(1) [OF assms(1)])
  have v: "RomanNumber_int a = Inr (lookahead_sum s)"
    by (rule RomanNumber_int_nonempty [OF assms])
  have p: "0 \<le> lookahead_sum s" using lookahead_sum_positive [OF l assms(2)] by simp
  have c: "contributions s = map (\<lambda>i. Inr (contribution s i)) [0..<length s]"
    by (rule contributions_letters [OF l])
  have f: "\<forall>i < length s. \<forall>x. contributions s ! i = Inr x \<and> x < 0 \<longrightarrow>
              x = - magnitude (s ! i) \<and> Suc i < length s \<and>
              magnitude (s ! i) < magnitude (s ! Suc i)"
  proof (intro allI impI)
    fix i x
    assume i: "i < length s" and x: "contributions s ! i = Inr x \<and> x < 0"
    from i c have "contributions s ! i = Inr (contribution s i)" by simp
    with x have "x = contribution s i" and "contribution s i < 0" by simp_all
    with flipped_then_larger [OF l i]
    show "x = - magnitude (s ! i) \<and> Suc i < length s \<and>
          magnitude (s ! i) < magnitude (s ! Suc i)" by simp
  qed
  from v p c f show ?thesis by simp
qed

theorem ToInteger_nonnegative_witness:
  "RomanNumber_init ''XIV'' = Inr \<lparr>r_digits = chain_of ''XIV'', r_value = ''XIV''\<rparr> \<and>
   RomanNumber_int \<lparr>r_digits = chain_of ''XIV'', r_value = ''XIV''\<rparr> = Inr 14 \<and>
   contributions ''XIV'' = [Inr 10, Inr (- 1), Inr 5] \<and>
   magnitude (''XIV'' ! 1) < magnitude (''XIV'' ! 2)"
proof -
  have i: "RomanNumber_init ''XIV'' = Inr \<lparr>r_digits = chain_of ''XIV'', r_value = ''XIV''\<rparr>"
    by code_simp
  have n: "''XIV'' \<noteq> []" by simp
  have e: "RomanNumber_int \<lparr>r_digits = chain_of ''XIV'', r_value = ''XIV''\<rparr> = Inr 14"
    by code_simp
  have c: "contributions ''XIV'' = [Inr 10, Inr (- 1), Inr 5]" by code_simp
  from ToInteger_nonnegative [OF i n]
  have "\<forall>i < length ''XIV''. \<forall>x. contributions ''XIV'' ! i = Inr x \<and> x < 0 \<longrightarrow>
          x = - magnitude (''XIV'' ! i) \<and> Suc i < length ''XIV'' \<and>
          magnitude (''XIV'' ! i) < magnitude (''XIV'' ! Suc i)"
    by blast
  then have "contributions ''XIV'' ! 1 = Inr (- 1) \<and> (- 1 :: int) < 0 \<longrightarrow>
          magnitude (''XIV'' ! 1) < magnitude (''XIV'' ! Suc 1)"
    by (metis One_nat_def length_Cons lessI list.size(3) Suc_lessD)
  with c have "magnitude (''XIV'' ! 1) < magnitude (''XIV'' ! 2)" by (simp add: numeral_2_eq_2)
  with i e c show ?thesis by simp
qed

text \<open>
  Claim C10 says that for every constructed numeral \<open>r\<close> the reversed addition \<open>n + r\<close>
  succeeds and \<open>r += n\<close> produces a plain integer. On the numeral constructed from the
  empty string \<open>__radd__\<close> and \<open>__iadd__\<close> raise the \<open>TypeError\<close> of \<open>int(None)\<close>.
\<close>

theorem radd_on_empty_numeral_raises:
  "RomanNumber_init [] = Inr \<lparr>r_digits = None, r_value = []\<rparr> \<and>
   RomanNumber_radd \<lparr>r_digits = None, r_value = []\<rparr> (PyInt 5) =
     Inl (TypeError int_of_None_message) \<and>
   augmented_add \<lparr>r_digits = None, r_value = []\<rparr> (PyInt 5) =
     Inl (TypeError int_of_None_message)"
  by code_simp

end
